theory Spec2Isabelle
  imports Complex_Main
begin

section \<open>Storage nodes (distributedkeyvaluestore/node.py)\<close>

text \<open>
  A Python object is known by its identity. A node list holds references, and a
  world maps every reference to the object it denotes, so that a node listed twice is one
  object and a write through one reference is seen through the other.
\<close>

type_synonym ref = nat
type_synonym key = string
type_synonym bytes = string

datatype error = ZeroDivisionError | ValueError

text \<open>
  The abstract class \<open>Node\<close>: an identity and the three methods. An object is its
  methods (what the subclass defines) together with its own data; a method returns its
  result, of the type its signature gives, and the object's data after the call. A method
  reads and writes the data of its own object only.
\<close>

record 's node =
  node_id :: int
  node_put :: "key \<Rightarrow> bytes \<Rightarrow> 's \<Rightarrow> bool \<times> 's"
  node_get :: "key \<Rightarrow> 's \<Rightarrow> bytes option \<times> 's"
  node_delete :: "key \<Rightarrow> 's \<Rightarrow> bool \<times> 's"
  node_data :: 's

text \<open>The class \<open>KVNode\<close>: its data is the dictionary \<open>self.data\<close>.\<close>

definition KVNode_put :: "key \<Rightarrow> bytes \<Rightarrow> (key \<rightharpoonup> bytes) \<Rightarrow> bool \<times> (key \<rightharpoonup> bytes)" where
  "KVNode_put k v d = (True, d(k \<mapsto> v))"

definition KVNode_get :: "key \<Rightarrow> (key \<rightharpoonup> bytes) \<Rightarrow> bytes option \<times> (key \<rightharpoonup> bytes)" where
  "KVNode_get k d = (d k, d)"

definition KVNode_delete :: "key \<Rightarrow> (key \<rightharpoonup> bytes) \<Rightarrow> bool \<times> (key \<rightharpoonup> bytes)" where
  "KVNode_delete k d = (if d k = None then (False, d) else (True, d(k := None)))"

definition KVNode :: "int \<Rightarrow> (key \<rightharpoonup> bytes) node" where
  "KVNode nid = \<lparr>node_id = nid, node_put = KVNode_put, node_get = KVNode_get,
                 node_delete = KVNode_delete, node_data = Map.empty\<rparr>"

definition is_KVNode :: "(key \<rightharpoonup> bytes) node \<Rightarrow> bool" where
  "is_KVNode n \<longleftrightarrow> node_put n = KVNode_put \<and> node_get n = KVNode_get \<and> node_delete n = KVNode_delete"

text \<open>
  The world: the objects behind the references, and the log of every method call made on
  a node, in the order of the calls (what a call-counting mock node would record).
\<close>

datatype call = PutCall ref key bytes | GetCall ref key | DeleteCall ref key

record 's world =
  heap :: "ref \<Rightarrow> 's node"
  calls :: "call list"

definition call_put :: "ref \<Rightarrow> key \<Rightarrow> bytes \<Rightarrow> 's world \<Rightarrow> bool \<times> 's world" where
  "call_put r k v w =
     (let n = heap w r; res = node_put n k v (node_data n)
      in (fst res, w\<lparr>heap := (heap w)(r := n\<lparr>node_data := snd res\<rparr>),
                     calls := calls w @ [PutCall r k v]\<rparr>))"

definition call_get :: "ref \<Rightarrow> key \<Rightarrow> 's world \<Rightarrow> bytes option \<times> 's world" where
  "call_get r k w =
     (let n = heap w r; res = node_get n k (node_data n)
      in (fst res, w\<lparr>heap := (heap w)(r := n\<lparr>node_data := snd res\<rparr>),
                     calls := calls w @ [GetCall r k]\<rparr>))"

section \<open>The Python runtime\<close>

text \<open>
  Two builtins the coordinator uses are fixed by the running interpreter and not by the
  program: \<open>hash\<close> on a string (keyed by the process's hash seed), and the order in which
  a \<open>set\<close> built from a list is iterated (given by the hashes of the objects, which are
  their addresses). Both are parameters of the model. \<open>set_iter xs\<close> is \<open>list(set(xs))\<close>.
\<close>

record runtime =
  str_hash :: "string \<Rightarrow> int"
  set_iter :: "ref list \<Rightarrow> ref list"

text \<open>What the language promises of a set: each element once, and no other.\<close>

definition set_semantics :: "runtime \<Rightarrow> bool" where
  "set_semantics rt \<longleftrightarrow> (\<forall>xs. distinct (set_iter rt xs) \<and> set (set_iter rt xs) = set xs)"

section \<open>The coordinator (distributedkeyvaluestore/dist.py)\<close>

record store =
  nodes :: "ref list"
  replication_factor :: int

text \<open>\<open>__init__\<close> has no check and no raise: it returns a coordinator for every input.\<close>

definition init :: "ref list \<Rightarrow> int \<Rightarrow> error + store" where
  "init ns rf = Inr \<lparr>nodes = ns, replication_factor = min (int (length ns)) rf\<rparr>"

text \<open>\<open>hash(key) % len(self.nodes)\<close> raises ZeroDivisionError on an empty list.\<close>

definition get_primary_node_for_key :: "runtime \<Rightarrow> store \<Rightarrow> key \<Rightarrow> error + ref" where
  "get_primary_node_for_key rt s k =
     (if length (nodes s) = 0 then Inl ZeroDivisionError
      else (let index = \<bar>str_hash rt k mod int (length (nodes s))\<bar>
            in Inr (nodes s ! nat index)))"

text \<open>\<open>list.index\<close>: the first position of the element; ValueError (here None) if there is none.\<close>

fun index_of :: "ref list \<Rightarrow> ref \<Rightarrow> nat option" where
  "index_of [] x = None"
| "index_of (y # ys) x = (if y = x then Some 0 else map_option Suc (index_of ys x))"

text \<open>The \<open>for i in range(self.replication_factor)\<close> loop with its \<open>break\<close>.\<close>

fun replica_loop :: "store \<Rightarrow> nat \<Rightarrow> nat list \<Rightarrow> ref list \<Rightarrow> ref list" where
  "replica_loop s primary_index [] replicas = replicas"
| "replica_loop s primary_index (i # rest) replicas =
     (let replica_index = (primary_index + i) mod length (nodes s);
          replicas' = (if \<not> primary_index = replica_index
                       then replicas @ [nodes s ! replica_index] else replicas)
      in if int (length replicas') = replication_factor s - 1 then replicas'
         else replica_loop s primary_index rest replicas')"

definition get_replica_nodes :: "runtime \<Rightarrow> store \<Rightarrow> ref \<Rightarrow> error + ref list" where
  "get_replica_nodes rt s primary =
     (if length (nodes s) = 1 \<or> replication_factor s \<le> 1 then Inr []
      else (case index_of (nodes s) primary of
              None \<Rightarrow> Inl ValueError
            | Some primary_index \<Rightarrow>
                Inr (set_iter rt
                      (replica_loop s primary_index [0..<nat (replication_factor s)] []))))"

definition get :: "runtime \<Rightarrow> store \<Rightarrow> key \<Rightarrow> 's world \<Rightarrow> (error + bytes option) \<times> 's world" where
  "get rt s k w =
     (case get_primary_node_for_key rt s k of
        Inl e \<Rightarrow> (Inl e, w)
      | Inr primary \<Rightarrow> (let res = call_get primary k w in (Inr (fst res), snd res)))"

text \<open>The \<open>for replica in replicas\<close> loop of \<open>put\<close>, counting \<open>replica_successes\<close>.\<close>

fun put_replicas :: "ref list \<Rightarrow> key \<Rightarrow> bytes \<Rightarrow> int \<Rightarrow> 's world \<Rightarrow> int \<times> 's world" where
  "put_replicas [] k v replica_successes w = (replica_successes, w)"
| "put_replicas (replica # rest) k v replica_successes w =
     (let res = call_put replica k v w
      in if \<not> fst res then put_replicas rest k v replica_successes (snd res)
         else put_replicas rest k v (replica_successes + 1) (snd res))"

text \<open>
  \<open>writeQuorum = 1 + ceil((self.replication_factor - 1) / 2)\<close>, replaced by 1 when the
  factor is 1. The true division is exact on every integer below \<open>2 ^ 53\<close> in size, far
  above any length a list can have, so the ceiling is taken of the exact quotient.
\<close>

definition writeQuorum :: "int \<Rightarrow> int" where
  "writeQuorum rf =
     (let wq = 1 + \<lceil>real_of_int (rf - 1) / 2\<rceil> in if rf = 1 then 1 else wq)"

definition put :: "runtime \<Rightarrow> store \<Rightarrow> key \<Rightarrow> bytes \<Rightarrow> 's world \<Rightarrow> (error + bool) \<times> 's world" where
  "put rt s k v w =
     (case get_primary_node_for_key rt s k of
        Inl e \<Rightarrow> (Inl e, w)
      | Inr primary \<Rightarrow>
          (let res = call_put primary k v w
           in if \<not> fst res then (Inr False, snd res)
              else (case get_replica_nodes rt s primary of
                      Inl e \<Rightarrow> (Inl e, snd res)
                    | Inr replicas \<Rightarrow>
                        (let tally = put_replicas replicas k v 0 (snd res)
                         in (Inr (1 + fst tally \<ge> writeQuorum (replication_factor s)),
                             snd tally)))))"

text \<open>
  Neither method assigns to \<open>self.nodes\<close> or \<open>self.replication_factor\<close>: serving a
  request leaves the coordinator as it was and changes the world only.
\<close>

datatype request = Get key | Put key bytes

fun serve :: "runtime \<Rightarrow> store \<times> 's world \<Rightarrow> request \<Rightarrow> store \<times> 's world" where
  "serve rt (s, w) (Get k) = (s, snd (get rt s k w))"
| "serve rt (s, w) (Put k v) = (s, snd (put rt s k v w))"

section \<open>Notions of the specification\<close>

text \<open>
  The ring walk from position \<open>p\<close>: the nodes at \<open>(p + 1) mod n\<close>, \<open>(p + 2) mod n\<close>, ...
  up to the replication factor, in that order.
\<close>

definition ring_walk :: "store \<Rightarrow> nat \<Rightarrow> ref list" where
  "ring_walk s p =
     map (\<lambda>i. nodes s ! ((p + i) mod length (nodes s))) [1..<nat (replication_factor s)]"

text \<open>The quorum as the specification words it.\<close>

definition write_quorum_spec :: "int \<Rightarrow> int" where
  "write_quorum_spec rf = (if rf = 1 then 1 else 1 + \<lceil>real_of_int (rf - 1) / 2\<rceil>)"

text \<open>The topology invariant of the data model.\<close>

definition rf_invariant :: "store \<Rightarrow> bool" where
  "rf_invariant s \<longleftrightarrow>
     1 \<le> replication_factor s \<and> replication_factor s \<le> int (length (nodes s))"

text \<open>Whether a node's \<open>put\<close> answers true when called in the given world.\<close>

definition put_succeeds :: "'s world \<Rightarrow> key \<Rightarrow> bytes \<Rightarrow> ref \<Rightarrow> bool" where
  "put_succeeds w k v r = fst (node_put (heap w r) k v (node_data (heap w r)))"

section \<open>Concrete runtimes, clusters and worlds\<close>

text \<open>
  The hashes CPython 3.11 (64 bit, siphash13) gives the keys \<open>foo\<close> and \<open>bar\<close> when
  started with PYTHONHASHSEED=0 and with PYTHONHASHSEED=1; the empty string hashes to 0
  under every seed. No other key is used below.
\<close>

definition hash_seed0 :: "string \<Rightarrow> int" where
  "hash_seed0 k = (if k = ''foo'' then 7664243301495174138
                   else if k = ''bar'' then - 2799141717307344793 else 0)"

definition hash_seed1 :: "string \<Rightarrow> int" where
  "hash_seed1 k = (if k = ''foo'' then 1603728720450038992
                   else if k = ''bar'' then - 6511269125752146909 else 0)"

text \<open>
  A set of a few objects allocated one after the other is laid out by their addresses;
  here it is iterated in increasing order of address.
\<close>

definition address_order :: "ref list \<Rightarrow> ref list" where
  "address_order xs = sort (remdups xs)"

definition run_seed0 :: runtime where
  "run_seed0 = \<lparr>str_hash = hash_seed0, set_iter = address_order\<rparr>"

definition run_seed1 :: runtime where
  "run_seed1 = \<lparr>str_hash = hash_seed1, set_iter = address_order\<rparr>"

text \<open>The cluster \<open>[A, B, C]\<close> with replication factor 3; A, B, C are the objects 0, 1, 2.\<close>

definition cluster3 :: store where
  "cluster3 = \<lparr>nodes = [0, 1, 2], replication_factor = 3\<rparr>"

text \<open>The list \<open>[A, B, B, B]\<close>, which names the object B three times, with factor 4.\<close>

definition repeated_cluster :: store where
  "repeated_cluster = \<lparr>nodes = [0, 1, 1, 1], replication_factor = 4\<rparr>"

text \<open>A node class whose \<open>put\<close> refuses every write (a node that is down).\<close>

definition DownNode_put :: "key \<Rightarrow> bytes \<Rightarrow> (key \<rightharpoonup> bytes) \<Rightarrow> bool \<times> (key \<rightharpoonup> bytes)" where
  "DownNode_put k v d = (False, d)"

definition DownNode :: "int \<Rightarrow> (key \<rightharpoonup> bytes) node" where
  "DownNode nid = \<lparr>node_id = nid, node_put = DownNode_put, node_get = KVNode_get,
                   node_delete = KVNode_delete, node_data = Map.empty\<rparr>"

text \<open>Worlds: every node a fresh KVNode; every node down; only B (object 1) up.\<close>

definition kv_world :: "(key \<rightharpoonup> bytes) world" where
  "kv_world = \<lparr>heap = (\<lambda>r. KVNode (int r)), calls = []\<rparr>"

definition down_world :: "(key \<rightharpoonup> bytes) world" where
  "down_world = \<lparr>heap = (\<lambda>r. DownNode (int r)), calls = []\<rparr>"

definition only_B_world :: "(key \<rightharpoonup> bytes) world" where
  "only_B_world = \<lparr>heap = (\<lambda>r. if r = 1 then KVNode 1 else DownNode (int r)), calls = []\<rparr>"

text \<open>The scenario of the specification: B and C are up, A is down.\<close>

definition A_down_world :: "(key \<rightharpoonup> bytes) world" where
  "A_down_world = \<lparr>heap = (\<lambda>r. if r = 0 then DownNode 0 else KVNode (int r)), calls = []\<rparr>"

section \<open>The replica loop walks the ring\<close>

lemma ring_step_neq:
  assumes "1 \<le> j" "j < n" "p < n"
  shows "(p + j) mod n \<noteq> (p::nat)"
proof (cases "p + j < n")
  case True
  with assms show ?thesis by simp
next
  case False
  with assms have "(p + j) mod n = p + j - n"
    by (simp add: mod_if)
  with assms False show ?thesis by simp
qed

lemma ring_mod:
  assumes "p < n" "i < n"
  shows "(p + i) mod n = (if p + i < n then p + i else p + i - (n::nat))"
proof (cases "p + i < n")
  case True
  then show ?thesis by simp
next
  case False
  with assms have "(p + i) mod n = p + i - n"
    by (simp add: mod_if)
  with False show ?thesis by simp
qed

lemma ring_step_inj:
  assumes "i < n" "j < n" "p < n" "(p + i) mod n = (p + j) mod (n::nat)"
  shows "i = j"
  using assms by (simp add: ring_mod split: if_splits)

lemma ring_mod_less: "p < n \<Longrightarrow> (p + i) mod n < (n::nat)"
  by (cases n) simp_all

lemma index_of_Some:
  "x \<in> set xs \<Longrightarrow> \<exists>i. index_of xs x = Some i \<and> i < length xs \<and> xs ! i = x"
  by (induction xs) auto

lemma length_ring_walk: "length (ring_walk s p) = nat (replication_factor s) - 1"
  by (simp add: ring_walk_def)

lemma distinct_ring_walk:
  assumes "distinct (nodes s)" "replication_factor s \<le> int (length (nodes s))"
    and "p < length (nodes s)"
  shows "distinct (ring_walk s p)"
proof -
  let ?n = "length (nodes s)"
  have "inj_on (\<lambda>i. nodes s ! ((p + i) mod ?n)) (set [1..<nat (replication_factor s)])"
  proof (rule inj_onI)
    fix i j
    assume i: "i \<in> set [1..<nat (replication_factor s)]"
      and j: "j \<in> set [1..<nat (replication_factor s)]"
      and eq: "nodes s ! ((p + i) mod ?n) = nodes s ! ((p + j) mod ?n)"
    from i j assms have lt: "i < ?n" "j < ?n" by auto
    from assms have "(p + i) mod ?n < ?n" "(p + j) mod ?n < ?n" by (simp_all add: ring_mod_less)
    with eq assms(1) have "(p + i) mod ?n = (p + j) mod ?n"
      by (simp add: nth_eq_iff_index_eq)
    with lt assms(3) show "i = j" by (rule ring_step_inj)
  qed
  then show ?thesis by (simp add: ring_walk_def distinct_map)
qed

lemma primary_notin_ring_walk:
  assumes "distinct (nodes s)" "replication_factor s \<le> int (length (nodes s))"
    and "p < length (nodes s)"
  shows "nodes s ! p \<notin> set (ring_walk s p)"
proof
  let ?n = "length (nodes s)"
  assume "nodes s ! p \<in> set (ring_walk s p)"
  then obtain i where i: "1 \<le> i" "i < nat (replication_factor s)"
    and eq: "nodes s ! p = nodes s ! ((p + i) mod ?n)"
    by (auto simp: ring_walk_def)
  from i assms have lt: "i < ?n" by linarith
  from assms have "(p + i) mod ?n < ?n" by (simp add: ring_mod_less)
  with eq assms have "p = (p + i) mod ?n"
    by (simp add: nth_eq_iff_index_eq)
  with ring_step_neq[OF i(1) lt assms(3)] show False by simp
qed

lemma set_ring_walk_subset:
  assumes "p < length (nodes s)"
  shows "set (ring_walk s p) \<subseteq> set (nodes s)"
  using assms by (auto simp: ring_walk_def ring_mod_less)

lemma replica_loop_from:
  assumes "2 \<le> replication_factor s" "replication_factor s \<le> int (length (nodes s))"
    and "p < length (nodes s)" "1 \<le> j" "j \<le> nat (replication_factor s)"
    and "length acc = j - 1"
  shows "replica_loop s p [j..<nat (replication_factor s)] acc =
         acc @ map (\<lambda>i. nodes s ! ((p + i) mod length (nodes s))) [j..<nat (replication_factor s)]"
  using assms
proof (induction "nat (replication_factor s) - j" arbitrary: j acc)
  case 0
  then show ?case by simp
next
  case (Suc d)
  let ?m = "nat (replication_factor s)"
  let ?n = "length (nodes s)"
  from Suc.hyps(2) have lt: "j < ?m" by simp
  then have upt: "[j..<?m] = j # [Suc j..<?m]" by (simp add: upt_conv_Cons)
  from lt Suc.prems have jn: "j < ?n" by linarith
  have neq: "(p + j) mod ?n \<noteq> p"
    using ring_step_neq[OF \<open>1 \<le> j\<close> jn \<open>p < ?n\<close>] .
  show ?case
  proof (cases "int (Suc (length acc)) = replication_factor s - 1")
    case True
    with Suc.prems have "Suc j = ?m" by simp
    then have "[Suc j..<?m] = []" by simp
    with True neq upt show ?thesis by (simp add: Let_def)
  next
    case False
    have IH: "replica_loop s p [Suc j..<?m] (acc @ [nodes s ! ((p + j) mod ?n)]) =
          (acc @ [nodes s ! ((p + j) mod ?n)]) @ map (\<lambda>i. nodes s ! ((p + i) mod ?n)) [Suc j..<?m]"
      using Suc.hyps Suc.prems lt by (intro Suc.hyps(1)) auto
    with False neq upt show ?thesis by (simp add: Let_def)
  qed
qed

lemma replica_loop_ring_walk:
  assumes "2 \<le> replication_factor s" "replication_factor s \<le> int (length (nodes s))"
    and "p < length (nodes s)"
  shows "replica_loop s p [0..<nat (replication_factor s)] [] = ring_walk s p"
proof -
  let ?m = "nat (replication_factor s)"
  have "[0..<?m] = 0 # [1..<?m]" using assms by (simp add: upt_conv_Cons)
  moreover have "replica_loop s p [1..<?m] [] = [] @ map (\<lambda>i. nodes s ! ((p + i) mod length (nodes s))) [1..<?m]"
    using assms by (intro replica_loop_from) auto
  ultimately show ?thesis using assms by (simp add: ring_walk_def Let_def)
qed


lemma get_replica_nodes_ring_walk:
  assumes "2 \<le> replication_factor s" "replication_factor s \<le> int (length (nodes s))"
    and "index_of (nodes s) primary = Some p" "p < length (nodes s)"
  shows "get_replica_nodes rt s primary = Inr (set_iter rt (ring_walk s p))"
  using assms replica_loop_ring_walk[OF assms(1,2,4)]
  by (simp add: get_replica_nodes_def)


lemma set_semantics_address_order:
  "distinct (address_order xs) \<and> set (address_order xs) = set xs"
  by (simp add: address_order_def)

lemma set_semantics_run_seed1: "set_semantics run_seed1"
  by (simp add: set_semantics_def run_seed1_def set_semantics_address_order)

lemma ring_walk_cluster3: "ring_walk cluster3 1 = [2, 0]"
  by (simp add: ring_walk_def cluster3_def upt_rec)

section \<open>Replica sets\<close>

lemma replica_nodes_facts:
  assumes "set_semantics rt" "distinct (nodes s)" "primary \<in> set (nodes s)"
    and "1 \<le> replication_factor s" "replication_factor s \<le> int (length (nodes s))"
  shows "\<exists>replicas. get_replica_nodes rt s primary = Inr replicas \<and>
           set replicas \<subseteq> set (nodes s) \<and> primary \<notin> set replicas \<and> distinct replicas \<and>
           int (length replicas) = replication_factor s - 1"
proof (cases "replication_factor s = 1")
  case True
  then have "get_replica_nodes rt s primary = Inr []"
    by (simp add: get_replica_nodes_def)
  with True show ?thesis by simp
next
  case False
  with assms have rf: "2 \<le> replication_factor s" by simp
  from assms(3) obtain p where p: "index_of (nodes s) primary = Some p" "p < length (nodes s)"
    "nodes s ! p = primary"
    using index_of_Some by blast
  have eq: "get_replica_nodes rt s primary = Inr (set_iter rt (ring_walk s p))"
    using rf assms(5) p(1,2) by (rule get_replica_nodes_ring_walk)
  from assms(1) have sem: "distinct (set_iter rt (ring_walk s p))"
    "set (set_iter rt (ring_walk s p)) = set (ring_walk s p)"
    by (simp_all add: set_semantics_def)
  have "length (set_iter rt (ring_walk s p)) = length (ring_walk s p)"
    using sem distinct_ring_walk[OF assms(2,5) p(2)] by (metis distinct_card)
  with rf have len: "int (length (set_iter rt (ring_walk s p))) = replication_factor s - 1"
    by (simp add: length_ring_walk)
  have "primary \<notin> set (set_iter rt (ring_walk s p))"
    using primary_notin_ring_walk[OF assms(2,5) p(2)] p(3) sem(2) by simp
  moreover have "set (set_iter rt (ring_walk s p)) \<subseteq> set (nodes s)"
    using set_ring_walk_subset[OF p(2)] sem(2) by simp
  ultimately show ?thesis using eq sem(1) len by simp
qed



section \<open>Routing, construction and the read path\<close>

lemma primary_cluster3_foo_seed1: "get_primary_node_for_key run_seed1 cluster3 ''foo'' = Inr 1"
  by (simp add: get_primary_node_for_key_def run_seed1_def hash_seed1_def cluster3_def)

lemma primary_cluster3_bar_seed1: "get_primary_node_for_key run_seed1 cluster3 ''bar'' = Inr 0"
  by (simp add: get_primary_node_for_key_def run_seed1_def hash_seed1_def cluster3_def)

lemma serve_keeps_store: "fst (foldl (serve rt) (s, w) reqs) = s"
proof (induction reqs arbitrary: w)
  case Nil
  show ?case by simp
next
  case (Cons q reqs)
  show ?case by (cases q) (simp_all add: Cons.IH)
qed

text \<open>
  C5, as the code has it. On a non-empty node list the primary of a key is
  \<open>nodes[hash(key) mod len(nodes)]\<close>, a position inside the list, for the \<open>hash\<close> of
  the running process: within one process the same key and topology give the same node,
  and two processes agree on the primary of a key whenever their hashes of the key agree
  modulo the number of nodes.
\<close>

theorem primary_of_key:
  assumes "nodes s \<noteq> []"
  shows "get_primary_node_for_key rt s k =
           Inr (nodes s ! nat (str_hash rt k mod int (length (nodes s)))) \<and>
         nat (str_hash rt k mod int (length (nodes s))) < length (nodes s) \<and>
         (\<forall>rt'. str_hash rt' k mod int (length (nodes s)) =
                 str_hash rt k mod int (length (nodes s)) \<longrightarrow>
                get_primary_node_for_key rt' s k = get_primary_node_for_key rt s k)"
proof -
  from assms have pos: "0 < int (length (nodes s))" by simp
  then have nn: "0 \<le> str_hash rt k mod int (length (nodes s))"
    and lt: "str_hash rt k mod int (length (nodes s)) < int (length (nodes s))"
    by simp_all
  then have "nat (str_hash rt k mod int (length (nodes s))) < length (nodes s)"
    by linarith
  with nn assms show ?thesis
    by (simp add: get_primary_node_for_key_def Let_def)
qed

theorem primary_of_key_witness:
  "nodes cluster3 \<noteq> [] \<and> get_primary_node_for_key run_seed1 cluster3 ''foo'' = Inr 1 \<and>
   get_primary_node_for_key run_seed1 cluster3 ''foo'' =
     get_primary_node_for_key (run_seed1\<lparr>set_iter := id\<rparr>) cluster3 ''foo''"
  using primary_of_key [of cluster3 run_seed1 "''foo''"]
  by (simp add: cluster3_def run_seed1_def hash_seed1_def)

text \<open>
  C5 as stated asks for the same primary across process runs. The builtin \<open>hash\<close> of a
  string is keyed by the process: under the hashes of two runs of the same interpreter the
  key \<open>foo\<close> has primary A in one run and primary B in the other.
\<close>

theorem primary_differs_across_runs:
  "get_primary_node_for_key run_seed0 cluster3 ''foo'' \<noteq>
   get_primary_node_for_key run_seed1 cluster3 ''foo''"
  by (simp add: get_primary_node_for_key_def run_seed0_def run_seed1_def hash_seed0_def
      hash_seed1_def cluster3_def)

text \<open>
  C6 as stated has an empty node list rejected at construction time. \<open>__init__\<close> builds a
  coordinator from the empty list, and the error is raised by the first call.
\<close>

theorem empty_cluster_constructed:
  "init [] 3 = Inr \<lparr>nodes = [], replication_factor = 0\<rparr> \<and>
   get run_seed1 \<lparr>nodes = [], replication_factor = 0\<rparr> ''foo'' kv_world =
     (Inl ZeroDivisionError, kv_world)"
  by (simp add: init_def get_def get_primary_node_for_key_def)

text \<open>
  C6, as the code has it. Construction from an empty node list succeeds, with
  replication factor \<open>min 0 replication_factor\<close>; on a coordinator whose node list is
  empty every \<open>get\<close> and every \<open>put\<close> raises ZeroDivisionError before any node is
  called, so that no call is served.
\<close>

theorem empty_cluster_fails_at_call:
  "init [] rf = Inr \<lparr>nodes = [], replication_factor = min 0 rf\<rparr> \<and>
   (nodes s = [] \<longrightarrow> get rt s k w = (Inl ZeroDivisionError, w) \<and>
                      put rt s k v w = (Inl ZeroDivisionError, w))"
  by (simp add: init_def get_def put_def get_primary_node_for_key_def)

theorem empty_cluster_fails_at_call_witness:
  "nodes \<lparr>nodes = [], replication_factor = 0\<rparr> = [] \<and>
   init [] 3 = Inr \<lparr>nodes = [], replication_factor = 0\<rparr> \<and>
   put run_seed1 \<lparr>nodes = [], replication_factor = 0\<rparr> ''foo'' ''v'' kv_world =
     (Inl ZeroDivisionError, kv_world)"
  using empty_cluster_fails_at_call [of 3 "\<lparr>nodes = [], replication_factor = 0\<rparr>" run_seed1
      "''foo''" kv_world "''v''"]
  by simp

text \<open>
  C7 as stated has \<open>1 \<le> replication_factor\<close> after construction with any integer
  factor. One node and factor 0 give a stored factor of 0.
\<close>

theorem factor_below_one:
  "init [0] 0 = Inr \<lparr>nodes = [0], replication_factor = 0\<rparr> \<and>
   \<not> rf_invariant \<lparr>nodes = [0], replication_factor = 0\<rparr>"
  by (simp add: init_def rf_invariant_def)

text \<open>
  C7, as the code has it. Construction stores the node list and the factor
  \<open>min (len nodes) replication_factor\<close>, which is at most the number of nodes; it is at
  least 1 exactly when the list is not empty and the given factor is at least 1 (there is
  no clamp from below). No sequence of \<open>get\<close> and \<open>put\<close> requests changes the
  coordinator.
\<close>

theorem init_clamps:
  assumes "init ns rf = Inr s"
  shows "nodes s = ns \<and> replication_factor s = min (int (length ns)) rf \<and>
         replication_factor s \<le> int (length (nodes s)) \<and>
         (rf_invariant s \<longleftrightarrow> ns \<noteq> [] \<and> 1 \<le> rf) \<and>
         fst (foldl (serve rt) (s, w) reqs) = s"
proof -
  from assms have s: "s = \<lparr>nodes = ns, replication_factor = min (int (length ns)) rf\<rparr>"
    by (simp add: init_def)
  have "rf_invariant s \<longleftrightarrow> ns \<noteq> [] \<and> 1 \<le> rf"
    by (cases ns) (auto simp: s rf_invariant_def)
  then show ?thesis by (simp add: s serve_keeps_store)
qed

theorem init_clamps_witness:
  "init [0, 1, 2] 5 = Inr cluster3 \<and> rf_invariant cluster3 \<and>
   fst (foldl (serve run_seed1) (cluster3, kv_world) [Put ''foo'' ''v'', Get ''foo'']) = cluster3"
  using init_clamps [of "[0, 1, 2]" 5 cluster3 run_seed1 kv_world "[Put ''foo'' ''v'', Get ''foo'']"]
  by (simp add: init_def cluster3_def)

section \<open>Failure of the primary write\<close>

text \<open>
  C2. If the \<open>put\<close> of the primary node of the key answers false, the coordinator's
  \<open>put\<close> returns false, the one call it has made is that \<open>put\<close> on the primary, and
  every other node is as it was.
\<close>

theorem put_primary_failure:
  assumes "get_primary_node_for_key rt s k = Inr primary"
    and "\<not> put_succeeds w k v primary"
  shows "fst (put rt s k v w) = Inr False \<and>
         calls (snd (put rt s k v w)) = calls w @ [PutCall primary k v] \<and>
         (\<forall>r. r \<noteq> primary \<longrightarrow> heap (snd (put rt s k v w)) r = heap w r)"
  using assms by (simp add: put_def call_put_def put_succeeds_def Let_def)

theorem put_primary_failure_witness:
  "get_primary_node_for_key run_seed1 cluster3 ''bar'' = Inr 0 \<and>
   \<not> put_succeeds down_world ''bar'' ''v'' 0 \<and>
   fst (put run_seed1 cluster3 ''bar'' ''v'' down_world) = Inr False \<and>
   calls (snd (put run_seed1 cluster3 ''bar'' ''v'' down_world)) = [PutCall 0 ''bar'' ''v'']"
  using put_primary_failure [of run_seed1 cluster3 "''bar''" 0 down_world "''v''"]
    primary_cluster3_bar_seed1
  by (simp add: put_succeeds_def down_world_def DownNode_def DownNode_put_def)

section \<open>Reads\<close>

text \<open>
  C8. \<open>get\<close> makes one call, \<open>get\<close> on the primary node of the key, and returns that
  node's answer as it is; every other node is as it was. The result is absent whenever
  the primary answers absent, which a KVNode does for a key its dictionary lacks.
\<close>

theorem get_reads_primary_only:
  assumes "get_primary_node_for_key rt s k = Inr primary"
  shows "fst (get rt s k w) = Inr (fst (node_get (heap w primary) k (node_data (heap w primary)))) \<and>
         calls (snd (get rt s k w)) = calls w @ [GetCall primary k] \<and>
         (\<forall>r. r \<noteq> primary \<longrightarrow> heap (snd (get rt s k w)) r = heap w r) \<and>
         (fst (node_get (heap w primary) k (node_data (heap w primary))) = None \<longrightarrow>
            fst (get rt s k w) = Inr None) \<and>
         (\<forall>d. d k = None \<longrightarrow> fst (KVNode_get k d) = None)"
  using assms by (simp add: get_def call_get_def Let_def KVNode_get_def)

theorem get_reads_primary_only_witness:
  "get_primary_node_for_key run_seed1 cluster3 ''foo'' = Inr 1 \<and>
   fst (node_get (heap kv_world 1) ''foo'' (node_data (heap kv_world 1))) = None \<and>
   fst (get run_seed1 cluster3 ''foo'' kv_world) = Inr None \<and>
   calls (snd (get run_seed1 cluster3 ''foo'' kv_world)) = [GetCall 1 ''foo'']"
  using get_reads_primary_only [of run_seed1 cluster3 "''foo''" 1 kv_world]
    primary_cluster3_foo_seed1
  by (simp add: kv_world_def KVNode_def KVNode_get_def)


section \<open>Replica order\<close>

lemma index_of_SomeD: "index_of xs x = Some i \<Longrightarrow> i < length xs \<and> xs ! i = x"
  by (induction xs arbitrary: i) (auto split: if_splits)

lemma replicas_cluster3_B: "get_replica_nodes run_seed1 cluster3 1 = Inr [0, 2]"
proof -
  have "get_replica_nodes run_seed1 cluster3 1 = Inr (set_iter run_seed1 (ring_walk cluster3 1))"
    by (rule get_replica_nodes_ring_walk) (simp_all add: cluster3_def)
  also have "set_iter run_seed1 (ring_walk cluster3 1) = [0, 2]"
    unfolding ring_walk_cluster3 by (simp add: run_seed1_def address_order_def)
  finally show ?thesis .
qed

text \<open>
  C4, as the code has it. With a replication factor between 2 and the number of nodes,
  the replica list of the node at first position \<open>p\<close> is \<open>list(set(W))\<close> for the ring
  walk \<open>W\<close> from \<open>p\<close>: it holds the nodes of the ring walk and no other, each once, in
  the order in which the runtime iterates the set, and it is the ring walk itself where
  that iteration keeps the order. The list is a function of the runtime, the topology
  and the primary, so two calls in one process give the same list.
\<close>

theorem replicas_are_set_of_ring_walk:
  assumes "2 \<le> replication_factor s" "replication_factor s \<le> int (length (nodes s))"
    and "index_of (nodes s) primary = Some p"
  shows "get_replica_nodes rt s primary = Inr (set_iter rt (ring_walk s p)) \<and>
         (set_semantics rt \<longrightarrow>
            set (set_iter rt (ring_walk s p)) = set (ring_walk s p) \<and>
            distinct (set_iter rt (ring_walk s p))) \<and>
         (set_iter rt (ring_walk s p) = ring_walk s p \<longrightarrow>
            get_replica_nodes rt s primary = Inr (ring_walk s p))"
proof -
  from assms(3) have "p < length (nodes s)" by (simp add: index_of_SomeD)
  with assms have "get_replica_nodes rt s primary = Inr (set_iter rt (ring_walk s p))"
    by (intro get_replica_nodes_ring_walk)
  then show ?thesis by (simp add: set_semantics_def)
qed

text \<open>Sets iterated by address, and sets iterated in insertion order.\<close>

theorem replicas_are_set_of_ring_walk_witness:
  "2 \<le> replication_factor cluster3 \<and>
   replication_factor cluster3 \<le> int (length (nodes cluster3)) \<and>
   index_of (nodes cluster3) 1 = Some 1 \<and> set_semantics run_seed1 \<and>
   get_replica_nodes run_seed1 cluster3 1 = Inr (address_order [2, 0]) \<and>
   set (address_order [2, 0]) = {0, 2} \<and>
   get_replica_nodes (run_seed1\<lparr>set_iter := remdups\<rparr>) cluster3 1 = Inr [2, 0]"
  using replicas_are_set_of_ring_walk [of cluster3 1 1 run_seed1]
    replicas_are_set_of_ring_walk [of cluster3 1 1 "run_seed1\<lparr>set_iter := remdups\<rparr>"]
    set_semantics_run_seed1 ring_walk_cluster3
  by (simp add: cluster3_def run_seed1_def address_order_def insert_commute)

text \<open>
  C4 as stated has the replica list in ring-walk order. In \<open>[A, B, C]\<close> with factor 3 the
  ring walk from B is C, A; a runtime that iterates the set by address returns A, C.
\<close>

theorem replicas_not_in_ring_order:
  "get_replica_nodes run_seed1 cluster3 1 = Inr [0, 2] \<and> ring_walk cluster3 1 = [2, 0]"
  using replicas_cluster3_B ring_walk_cluster3 by simp

section \<open>The quorum rule\<close>

lemma ceiling_half: "\<lceil>real_of_int n / 2\<rceil> = (n + 1) div 2"
proof -
  have "\<lceil>real_of_int n / real_of_int 2\<rceil> = - (- n div 2)"
    by (rule ceiling_divide_eq_div)
  then show ?thesis by simp
qed

lemma writeQuorum_spec: "writeQuorum rf = write_quorum_spec rf"
  by (simp add: writeQuorum_def write_quorum_spec_def Let_def)

lemma write_quorum_spec_eq: "write_quorum_spec rf = (if rf = 1 then 1 else 1 + rf div 2)"
  unfolding write_quorum_spec_def ceiling_half by simp

lemma fst_call_put: "fst (call_put r k v w) = put_succeeds w k v r"
  by (simp add: call_put_def put_succeeds_def Let_def)

lemma calls_call_put: "calls (snd (call_put r k v w)) = calls w @ [PutCall r k v]"
  by (simp add: call_put_def Let_def)

lemma heap_call_put_other: "r' \<noteq> r \<Longrightarrow> heap (snd (call_put r k v w)) r' = heap w r'"
  by (simp add: call_put_def Let_def)

lemma heap_call_put_same:
  "heap (snd (call_put r k v w)) r =
     (heap w r)\<lparr>node_data := snd (node_put (heap w r) k v (node_data (heap w r)))\<rparr>"
  by (simp add: call_put_def Let_def)

lemma put_succeeds_call_put_other:
  "r' \<noteq> r \<Longrightarrow> put_succeeds (snd (call_put r k v w)) k v r' = put_succeeds w k v r'"
  by (simp add: put_succeeds_def heap_call_put_other)

lemma put_replicas_count:
  "distinct rs \<Longrightarrow>
   fst (put_replicas rs k v n w) = n + int (length (filter (put_succeeds w k v) rs))"
proof (induction rs arbitrary: n w)
  case Nil
  show ?case by simp
next
  case (Cons r rs)
  let ?w = "snd (call_put r k v w)"
  from Cons.prems have d: "distinct rs" and nin: "r \<notin> set rs" by simp_all
  have same: "filter (put_succeeds ?w k v) rs = filter (put_succeeds w k v) rs"
  proof (rule filter_cong)
    fix x
    assume "x \<in> set rs"
    with nin have "x \<noteq> r" by auto
    then show "put_succeeds ?w k v x = put_succeeds w k v x"
      by (rule put_succeeds_call_put_other)
  qed simp
  show ?case
    using Cons.IH[OF d, of _ ?w] same
    by (simp add: Let_def fst_call_put)
qed

lemma put_replicas_calls:
  "calls (snd (put_replicas rs k v n w)) = calls w @ map (\<lambda>r. PutCall r k v) rs"
  by (induction rs arbitrary: n w) (simp_all add: Let_def calls_call_put)

lemma distinct_get_replica_nodes:
  assumes "set_semantics rt" "get_replica_nodes rt s primary = Inr rs"
  shows "distinct rs"
  using assms
  by (auto simp: get_replica_nodes_def set_semantics_def split: if_splits option.splits)

lemma put_unfold:
  assumes "get_primary_node_for_key rt s k = Inr primary"
    and "put_succeeds w k v primary"
    and "get_replica_nodes rt s primary = Inr replicas"
  shows "put rt s k v w =
           (Inr (writeQuorum (replication_factor s) \<le>
                 1 + fst (put_replicas replicas k v 0 (snd (call_put primary k v w)))),
            snd (put_replicas replicas k v 0 (snd (call_put primary k v w))))"
  using assms by (simp add: put_def Let_def fst_call_put)

text \<open>
  C1. When the \<open>put\<close> of the primary answers true, the coordinator's \<open>put\<close> returns
  true if and only if 1 plus the number of replicas whose \<open>put\<close> answers true reaches
  the write quorum of the specification: 1 for factor 1, \<open>1 + ceil((RF - 1) / 2)\<close>
  otherwise, which is 2, 3, 3 for factors 3, 4, 5. It holds for every replication
  factor, those between 1 and the number of nodes among them.
\<close>

theorem put_quorum:
  assumes "set_semantics rt"
    and "get_primary_node_for_key rt s k = Inr primary"
    and "call_put primary k v w = (True, w1)"
    and "get_replica_nodes rt s primary = Inr replicas"
  shows "fst (put rt s k v w) =
           Inr (write_quorum_spec (replication_factor s) \<le>
                1 + int (length (filter (put_succeeds w1 k v) replicas))) \<and>
         write_quorum_spec 3 = 2 \<and> write_quorum_spec 4 = 3 \<and> write_quorum_spec 5 = 3"
proof -
  from assms(3) have ok: "put_succeeds w k v primary" and w1: "snd (call_put primary k v w) = w1"
    using fst_call_put[of primary k v w] by simp_all
  have d: "distinct replicas"
    using assms(1,4) by (rule distinct_get_replica_nodes)
  have "fst (put rt s k v w) =
          Inr (writeQuorum (replication_factor s) \<le> 1 + fst (put_replicas replicas k v 0 w1))"
    using put_unfold[OF assms(2) ok assms(4)] w1 by simp
  then show ?thesis
    by (simp add: put_replicas_count[OF d] writeQuorum_spec write_quorum_spec_eq)
qed


lemma call_put_A_down:
  "call_put 1 ''foo'' ''v'' A_down_world = (True, snd (call_put 1 ''foo'' ''v'' A_down_world))"
  by (simp add: prod_eq_iff fst_call_put put_succeeds_def A_down_world_def KVNode_def
      KVNode_put_def)

lemma rf_cluster3: "replication_factor cluster3 = 3"
  by (simp add: cluster3_def)

lemma successes_A_down:
  "filter (put_succeeds (snd (call_put 1 ''foo'' ''v'' A_down_world)) ''foo'' ''v'') [0, 2] = [2]"
  by (simp add: put_succeeds_def heap_call_put_other A_down_world_def
      KVNode_def DownNode_def KVNode_put_def DownNode_put_def)

theorem put_quorum_witness:
  "set_semantics run_seed1 \<and> get_primary_node_for_key run_seed1 cluster3 ''foo'' = Inr 1 \<and>
   call_put 1 ''foo'' ''v'' A_down_world = (True, snd (call_put 1 ''foo'' ''v'' A_down_world)) \<and>
   get_replica_nodes run_seed1 cluster3 1 = Inr [0, 2] \<and>
   fst (put run_seed1 cluster3 ''foo'' ''v'' A_down_world) = Inr True"
proof -
  have "fst (put run_seed1 cluster3 ''foo'' ''v'' A_down_world) = Inr True"
    using put_quorum [OF set_semantics_run_seed1 primary_cluster3_foo_seed1 call_put_A_down
        replicas_cluster3_B]
    unfolding successes_A_down rf_cluster3 by simp
  then show ?thesis
    using set_semantics_run_seed1 primary_cluster3_foo_seed1 call_put_A_down replicas_cluster3_B
    by simp
qed

section \<open>No rollback\<close>

lemma is_KVNode_call_put:
  "is_KVNode (heap (snd (call_put r' k v w)) r) = is_KVNode (heap w r)"
  by (simp add: call_put_def Let_def is_KVNode_def)

lemma KVNode_call_put_stores:
  "is_KVNode (heap w r) \<Longrightarrow> node_data (heap (snd (call_put r k v w)) r) k = Some v"
  by (simp add: heap_call_put_same is_KVNode_def KVNode_put_def)

lemma KVNode_put_succeeds: "is_KVNode (heap w r) \<Longrightarrow> put_succeeds w k v r"
  by (simp add: put_succeeds_def is_KVNode_def KVNode_put_def)

lemma put_replicas_KVNode_stores:
  "is_KVNode (heap w r) \<Longrightarrow> r \<in> set rs \<or> node_data (heap w r) k = Some v \<Longrightarrow>
   node_data (heap (snd (put_replicas rs k v n w)) r) k = Some v"
proof (induction rs arbitrary: n w)
  case Nil
  then show ?case by simp
next
  case (Cons r' rs)
  let ?w = "snd (call_put r' k v w)"
  have kv: "is_KVNode (heap ?w r)"
    using Cons.prems(1) by (simp add: is_KVNode_call_put)
  have "r \<in> set rs \<or> node_data (heap ?w r) k = Some v"
  proof (cases "r = r'")
    case True
    with Cons.prems(1) show ?thesis by (simp add: KVNode_call_put_stores)
  next
    case False
    with Cons.prems(2) show ?thesis by (auto simp: heap_call_put_other)
  qed
  with kv have "\<And>m. node_data (heap (snd (put_replicas rs k v m ?w)) r) k = Some v"
    by (rule Cons.IH)
  then show ?case by (simp add: Let_def)
qed

lemma put_replicas_heap_other:
  "r \<notin> set rs \<Longrightarrow> heap (snd (put_replicas rs k v n w)) r = heap w r"
  by (induction rs arbitrary: n w) (simp_all add: Let_def heap_call_put_other)

lemma put_calls_only_put:
  "\<exists>cs. calls (snd (put rt s k v w)) = calls w @ cs \<and> (\<forall>c\<in>set cs. \<exists>r. c = PutCall r k v)"
proof (cases "get_primary_node_for_key rt s k")
  case (Inl e)
  then show ?thesis by (simp add: put_def)
next
  case (Inr primary)
  show ?thesis
  proof (cases "fst (call_put primary k v w)")
    case False
    with Inr show ?thesis by (simp add: put_def Let_def calls_call_put)
  next
    case True
    show ?thesis
    proof (cases "get_replica_nodes rt s primary")
      case (Inl e)
      with Inr True show ?thesis by (simp add: put_def Let_def calls_call_put)
    next
      case replicas: (Inr replicas)
      have "calls (snd (put rt s k v w)) = calls w @ map (\<lambda>r. PutCall r k v) (primary # replicas)"
        using Inr True replicas by (simp add: put_def Let_def calls_call_put put_replicas_calls)
      moreover have "\<forall>c\<in>set (map (\<lambda>r. PutCall r k v) (primary # replicas)). \<exists>r. c = PutCall r k v"
        by auto
      ultimately show ?thesis by blast
    qed
  qed
qed

text \<open>
  C9. Every call that \<open>put\<close> makes on a node is a \<open>put\<close> of the given key and value:
  never a \<open>delete\<close>. When the primary write succeeds, the calls are the \<open>put\<close> on the
  primary and one on each replica, the result is false when the tally misses the quorum,
  and whatever the result every KVNode among the primary and the replicas holds the
  written value afterwards, while every other node is as it was.
\<close>

theorem put_never_deletes:
  "(\<exists>cs. calls (snd (put rt s k v w)) = calls w @ cs \<and>
          (\<forall>c\<in>set cs. \<exists>r. c = PutCall r k v)) \<and>
   (get_primary_node_for_key rt s k = Inr primary \<and> put_succeeds w k v primary \<and>
    get_replica_nodes rt s primary = Inr replicas \<longrightarrow>
      fst (put rt s k v w) =
        Inr (writeQuorum (replication_factor s) \<le>
             1 + fst (put_replicas replicas k v 0 (snd (call_put primary k v w)))) \<and>
      calls (snd (put rt s k v w)) = calls w @ map (\<lambda>r. PutCall r k v) (primary # replicas) \<and>
      (\<forall>r\<in>set (primary # replicas). is_KVNode (heap w r) \<longrightarrow>
          node_data (heap (snd (put rt s k v w)) r) k = Some v) \<and>
      (\<forall>r. r \<notin> set (primary # replicas) \<longrightarrow> heap (snd (put rt s k v w)) r = heap w r))"
proof (intro conjI impI)
  show "\<exists>cs. calls (snd (put rt s k v w)) = calls w @ cs \<and>
          (\<forall>c\<in>set cs. \<exists>r. c = PutCall r k v)"
    by (rule put_calls_only_put)
next
  assume a: "get_primary_node_for_key rt s k = Inr primary \<and> put_succeeds w k v primary \<and>
    get_replica_nodes rt s primary = Inr replicas"
  let ?w1 = "snd (call_put primary k v w)"
  have eq: "put rt s k v w =
      (Inr (writeQuorum (replication_factor s) \<le> 1 + fst (put_replicas replicas k v 0 ?w1)),
       snd (put_replicas replicas k v 0 ?w1))"
    using a by (intro put_unfold) simp_all
  show "fst (put rt s k v w) =
        Inr (writeQuorum (replication_factor s) \<le> 1 + fst (put_replicas replicas k v 0 ?w1))"
    by (simp add: eq)
  show "calls (snd (put rt s k v w)) = calls w @ map (\<lambda>r. PutCall r k v) (primary # replicas)"
    by (simp add: eq put_replicas_calls calls_call_put)
  show "\<forall>r\<in>set (primary # replicas). is_KVNode (heap w r) \<longrightarrow>
          node_data (heap (snd (put rt s k v w)) r) k = Some v"
  proof (intro ballI impI)
    fix r
    assume r: "r \<in> set (primary # replicas)" and kv: "is_KVNode (heap w r)"
    have kv1: "is_KVNode (heap ?w1 r)" using kv by (simp add: is_KVNode_call_put)
    have "r \<in> set replicas \<or> node_data (heap ?w1 r) k = Some v"
      using r kv by (auto simp: KVNode_call_put_stores)
    with kv1 show "node_data (heap (snd (put rt s k v w)) r) k = Some v"
      unfolding eq snd_conv by (rule put_replicas_KVNode_stores)
  qed
  show "\<forall>r. r \<notin> set (primary # replicas) \<longrightarrow> heap (snd (put rt s k v w)) r = heap w r"
    by (simp add: eq put_replicas_heap_other heap_call_put_other)
qed

lemma put_succeeds_only_B: "put_succeeds only_B_world ''foo'' ''v'' 1"
  by (simp add: put_succeeds_def only_B_world_def KVNode_def KVNode_put_def)

lemma tally_only_B:
  "fst (put_replicas [0, 2] ''foo'' ''v'' 0 (snd (call_put 1 ''foo'' ''v'' only_B_world))) = 0"
  by (simp add: Let_def fst_call_put put_succeeds_def heap_call_put_other heap_call_put_same
      only_B_world_def DownNode_def DownNode_put_def)

lemma is_KVNode_only_B: "is_KVNode (heap only_B_world 1)"
  by (simp add: is_KVNode_def only_B_world_def KVNode_def)

lemma calls_only_B: "calls only_B_world = []"
  by (simp add: only_B_world_def)

lemma writeQuorum_cluster3: "writeQuorum (replication_factor cluster3) = 2"
  by (simp add: rf_cluster3 writeQuorum_spec write_quorum_spec_eq)

theorem put_never_deletes_witness:
  "get_primary_node_for_key run_seed1 cluster3 ''foo'' = Inr 1 \<and>
   put_succeeds only_B_world ''foo'' ''v'' 1 \<and>
   get_replica_nodes run_seed1 cluster3 1 = Inr [0, 2] \<and>
   is_KVNode (heap only_B_world 1) \<and>
   fst (put run_seed1 cluster3 ''foo'' ''v'' only_B_world) = Inr False \<and>
   calls (snd (put run_seed1 cluster3 ''foo'' ''v'' only_B_world)) =
     [PutCall 1 ''foo'' ''v'', PutCall 0 ''foo'' ''v'', PutCall 2 ''foo'' ''v''] \<and>
   node_data (heap (snd (put run_seed1 cluster3 ''foo'' ''v'' only_B_world)) 1) ''foo'' = Some ''v''"
proof -
  note pre = primary_cluster3_foo_seed1 put_succeeds_only_B replicas_cluster3_B
  from put_never_deletes [of run_seed1 cluster3 "''foo''" "''v''" only_B_world 1 "[0, 2]"] pre
  have res: "fst (put run_seed1 cluster3 ''foo'' ''v'' only_B_world) =
        Inr (writeQuorum (replication_factor cluster3) \<le>
             1 + fst (put_replicas [0, 2] ''foo'' ''v'' 0 (snd (call_put 1 ''foo'' ''v'' only_B_world))))"
    and cl: "calls (snd (put run_seed1 cluster3 ''foo'' ''v'' only_B_world)) =
        calls only_B_world @ map (\<lambda>r. PutCall r ''foo'' ''v'') [1, 0, 2]"
    and st: "\<forall>r\<in>set [1, 0, 2]. is_KVNode (heap only_B_world r) \<longrightarrow>
        node_data (heap (snd (put run_seed1 cluster3 ''foo'' ''v'' only_B_world)) r) ''foo'' = Some ''v''"
    by blast+
  have "fst (put run_seed1 cluster3 ''foo'' ''v'' only_B_world) = Inr False"
    using res unfolding tally_only_B writeQuorum_cluster3 by simp
  moreover have "calls (snd (put run_seed1 cluster3 ''foo'' ''v'' only_B_world)) =
     [PutCall 1 ''foo'' ''v'', PutCall 0 ''foo'' ''v'', PutCall 2 ''foo'' ''v'']"
    using cl by (simp add: calls_only_B)
  moreover have "node_data (heap (snd (put run_seed1 cluster3 ''foo'' ''v'' only_B_world)) 1) ''foo'' = Some ''v''"
    using st is_KVNode_only_B by simp
  ultimately show ?thesis using pre is_KVNode_only_B by simp
qed


section \<open>A cluster of KVNodes\<close>

lemma primary_in_nodes:
  assumes "nodes s \<noteq> []"
  shows "\<exists>p. get_primary_node_for_key rt s k = Inr p \<and> p \<in> set (nodes s)"
proof -
  from assms have pos: "0 < int (length (nodes s))" by simp
  then have nn: "0 \<le> str_hash rt k mod int (length (nodes s))"
    and lt: "str_hash rt k mod int (length (nodes s)) < int (length (nodes s))"
    by simp_all
  then have "nat (str_hash rt k mod int (length (nodes s))) < length (nodes s)"
    by linarith
  then have "nodes s ! nat (str_hash rt k mod int (length (nodes s))) \<in> set (nodes s)"
    by (rule nth_mem)
  with nn assms show ?thesis
    by (simp add: get_primary_node_for_key_def Let_def)
qed

lemma writeQuorum_le: "1 \<le> rf \<Longrightarrow> writeQuorum rf \<le> rf"
  by (simp add: writeQuorum_spec write_quorum_spec_eq) linarith

lemma init_repeated_cluster: "init [0, 1, 1, 1] 4 = Inr repeated_cluster"
  by (simp add: init_def repeated_cluster_def)

lemma primary_repeated_cluster:
  "get_primary_node_for_key run_seed1 repeated_cluster ''foo'' = Inr 0"
  by (simp add: get_primary_node_for_key_def run_seed1_def hash_seed1_def repeated_cluster_def)

lemma replicas_repeated_cluster: "get_replica_nodes run_seed1 repeated_cluster 0 = Inr [1]"
  by (simp add: get_replica_nodes_def repeated_cluster_def upt_rec Let_def run_seed1_def
      address_order_def)

lemma is_KVNode_kv_world: "is_KVNode (heap kv_world r)"
  by (simp add: kv_world_def is_KVNode_def KVNode_def)

lemma tally_repeated_cluster:
  "fst (put_replicas [1] ''foo'' ''v'' 0 (snd (call_put 0 ''foo'' ''v'' kv_world))) = 1"
  by (simp add: Let_def fst_call_put KVNode_put_succeeds is_KVNode_call_put is_KVNode_kv_world)

lemma writeQuorum_repeated_cluster: "writeQuorum (replication_factor repeated_cluster) = 3"
  by (simp add: repeated_cluster_def writeQuorum_spec write_quorum_spec_eq)

text \<open>
  C10 as stated has every \<open>put\<close> on KVNodes return true. The coordinator built from
  \<open>[A, B, B, B]\<close> with factor 4, all KVNodes, has primary A for the key \<open>foo\<close>; its
  three ring positions hold the one object B, the set keeps one replica, and
  \<open>1 + 1\<close> misses the quorum of 3: \<open>put\<close> returns false.
\<close>

theorem put_on_repeated_KVNode:
  "init [0, 1, 1, 1] 4 = Inr repeated_cluster \<and>
   is_KVNode (heap kv_world 0) \<and> is_KVNode (heap kv_world 1) \<and>
   fst (put run_seed1 repeated_cluster ''foo'' ''v'' kv_world) = Inr False"
proof -
  have "put_succeeds kv_world ''foo'' ''v'' 0"
    by (rule KVNode_put_succeeds) (rule is_KVNode_kv_world)
  with primary_repeated_cluster
  have "fst (put run_seed1 repeated_cluster ''foo'' ''v'' kv_world) =
      Inr (writeQuorum (replication_factor repeated_cluster) \<le>
           1 + fst (put_replicas [1] ''foo'' ''v'' 0 (snd (call_put 0 ''foo'' ''v'' kv_world))))"
    using replicas_repeated_cluster by (simp add: put_unfold)
  then have "fst (put run_seed1 repeated_cluster ''foo'' ''v'' kv_world) = Inr False"
    unfolding tally_repeated_cluster writeQuorum_repeated_cluster by simp
  then show ?thesis
    using init_repeated_cluster is_KVNode_kv_world by simp
qed

text \<open>
  C10, as the code has it. A coordinator constructed over a non-empty list of pairwise
  distinct nodes, all of them KVNodes, with a replication factor of at least 1, returns
  true from every \<open>put\<close>: the primary is a node of the list and accepts the write,
  there are \<open>replication_factor - 1\<close> replicas, all nodes of the list other than the
  primary, each is called once and accepts the write, so that the tally is
  \<open>replication_factor - 1\<close>, and the quorum is at most 1 plus that tally. The calls made
  are the \<open>put\<close> on the primary and then one on each replica, and afterwards the
  primary and every replica hold the written value.
\<close>

theorem put_on_KVNodes:
  assumes "set_semantics rt" "init ns rf = Inr s" "ns \<noteq> []" "distinct ns" "1 \<le> rf"
    and "\<forall>r\<in>set ns. is_KVNode (heap w r)"
  shows "\<exists>primary replicas.
           get_primary_node_for_key rt s k = Inr primary \<and> primary \<in> set ns \<and>
           get_replica_nodes rt s primary = Inr replicas \<and> set replicas \<subseteq> set ns \<and>
           distinct replicas \<and> primary \<notin> set replicas \<and>
           replication_factor s = min (int (length ns)) rf \<and>
           int (length replicas) = replication_factor s - 1 \<and>
           put_succeeds w k v primary \<and>
           (\<forall>r\<in>set replicas. put_succeeds (snd (call_put primary k v w)) k v r) \<and>
           fst (put_replicas replicas k v 0 (snd (call_put primary k v w))) =
             replication_factor s - 1 \<and>
           writeQuorum (replication_factor s) \<le> 1 + (replication_factor s - 1) \<and>
           calls (snd (put rt s k v w)) =
             calls w @ map (\<lambda>r. PutCall r k v) (primary # replicas) \<and>
           (\<forall>r\<in>set (primary # replicas).
              node_data (heap (snd (put rt s k v w)) r) k = Some v) \<and>
           fst (put rt s k v w) = Inr True"
proof -
  from assms(2) have s: "nodes s = ns" "replication_factor s = min (int (length ns)) rf"
    by (auto simp: init_def)
  from assms(3,5) have lo: "1 \<le> replication_factor s"
    by (cases ns) (simp_all add: s)
  have hi: "replication_factor s \<le> int (length (nodes s))" by (simp add: s)
  obtain primary where p: "get_primary_node_for_key rt s k = Inr primary"
    "primary \<in> set (nodes s)"
    using primary_in_nodes[of s rt k] assms(3) s(1) by auto
  have ok: "put_succeeds w k v primary"
    using assms(6) p(2) s(1) by (simp add: KVNode_put_succeeds)
  from assms(4) have d: "distinct (nodes s)" by (simp add: s)
  obtain replicas where r: "get_replica_nodes rt s primary = Inr replicas"
    "set replicas \<subseteq> set (nodes s)" "distinct replicas"
    "int (length replicas) = replication_factor s - 1" "primary \<notin> set replicas"
    using replica_nodes_facts[OF assms(1) d p(2) lo hi] by blast
  let ?w1 = "snd (call_put primary k v w)"
  have kv: "is_KVNode (heap w x)" if "x \<in> set (primary # replicas)" for x
    using that r(2) p(2) s(1) assms(6) by auto
  have kv1: "is_KVNode (heap ?w1 x)" if "x \<in> set (primary # replicas)" for x
    using kv[OF that] by (simp add: is_KVNode_call_put)
  have all_ok: "\<forall>x\<in>set replicas. put_succeeds ?w1 k v x"
    using kv1 by (auto intro: KVNode_put_succeeds)
  then have "filter (put_succeeds ?w1 k v) replicas = replicas"
    by simp
  then have tally: "fst (put_replicas replicas k v 0 ?w1) = replication_factor s - 1"
    using put_replicas_count[OF r(3), of k v 0 ?w1] r(4) by simp
  have wq: "writeQuorum (replication_factor s) \<le> 1 + (replication_factor s - 1)"
    using writeQuorum_le[OF lo] by simp
  have eq: "put rt s k v w =
      (Inr (writeQuorum (replication_factor s) \<le> 1 + fst (put_replicas replicas k v 0 ?w1)),
       snd (put_replicas replicas k v 0 ?w1))"
    using p(1) ok r(1) by (rule put_unfold)
  have res: "fst (put rt s k v w) = Inr True"
    using wq tally by (simp add: eq)
  have cl: "calls (snd (put rt s k v w)) = calls w @ map (\<lambda>r. PutCall r k v) (primary # replicas)"
    by (simp add: eq put_replicas_calls calls_call_put)
  have st: "\<forall>x\<in>set (primary # replicas). node_data (heap (snd (put rt s k v w)) x) k = Some v"
  proof
    fix x
    assume x: "x \<in> set (primary # replicas)"
    have "x \<in> set replicas \<or> node_data (heap ?w1 x) k = Some v"
      using x kv[OF x] by (auto simp: KVNode_call_put_stores)
    with kv1[OF x] show "node_data (heap (snd (put rt s k v w)) x) k = Some v"
      unfolding eq snd_conv by (rule put_replicas_KVNode_stores)
  qed
  from p r ok all_ok tally wq cl st res s show ?thesis
    by (intro exI[of _ primary] exI[of _ replicas]) simp
qed

lemma init_cluster3: "init [0, 1, 2] 5 = Inr cluster3"
  by (simp add: init_def cluster3_def)

lemma kv_world_KVNodes: "\<forall>r\<in>set [0, 1, 2]. is_KVNode (heap kv_world r)"
  by (simp add: is_KVNode_kv_world)

lemma calls_kv_world: "calls kv_world = []"
  by (simp add: kv_world_def)

theorem put_on_KVNodes_witness:
  "set_semantics run_seed1 \<and> init [0, 1, 2] 5 = Inr cluster3 \<and> [0, 1, 2] \<noteq> ([] :: ref list) \<and>
   distinct [0, 1, 2 :: ref] \<and> (1::int) \<le> 5 \<and>
   is_KVNode (heap kv_world 0) \<and> is_KVNode (heap kv_world 1) \<and> is_KVNode (heap kv_world 2) \<and>
   fst (put run_seed1 cluster3 ''foo'' ''v'' kv_world) = Inr True \<and>
   calls (snd (put run_seed1 cluster3 ''foo'' ''v'' kv_world)) =
     [PutCall 1 ''foo'' ''v'', PutCall 0 ''foo'' ''v'', PutCall 2 ''foo'' ''v''] \<and>
   node_data (heap (snd (put run_seed1 cluster3 ''foo'' ''v'' kv_world)) 1) ''foo'' = Some ''v'' \<and>
   node_data (heap (snd (put run_seed1 cluster3 ''foo'' ''v'' kv_world)) 0) ''foo'' = Some ''v'' \<and>
   node_data (heap (snd (put run_seed1 cluster3 ''foo'' ''v'' kv_world)) 2) ''foo'' = Some ''v''"
proof -
  have ne: "[0, 1, 2] \<noteq> ([] :: ref list)" and di: "distinct [0, 1, 2 :: ref]"
    and le: "(1::int) \<le> 5"
    by simp_all
  from put_on_KVNodes [OF set_semantics_run_seed1 init_cluster3 ne di le kv_world_KVNodes,
      of "''foo''" "''v''"]
  obtain primary replicas where
    p: "get_primary_node_for_key run_seed1 cluster3 ''foo'' = Inr primary"
    and r: "get_replica_nodes run_seed1 cluster3 primary = Inr replicas"
    and cl: "calls (snd (put run_seed1 cluster3 ''foo'' ''v'' kv_world)) =
        calls kv_world @ map (\<lambda>r. PutCall r ''foo'' ''v'') (primary # replicas)"
    and st: "\<forall>r\<in>set (primary # replicas).
        node_data (heap (snd (put run_seed1 cluster3 ''foo'' ''v'' kv_world)) r) ''foo'' = Some ''v''"
    and res: "fst (put run_seed1 cluster3 ''foo'' ''v'' kv_world) = Inr True"
    by blast
  from p have p1: "primary = 1" by (simp add: primary_cluster3_foo_seed1)
  from r have r1: "replicas = [0, 2]" unfolding p1 replicas_cluster3_B by simp
  from cl st have "calls (snd (put run_seed1 cluster3 ''foo'' ''v'' kv_world)) =
     [PutCall 1 ''foo'' ''v'', PutCall 0 ''foo'' ''v'', PutCall 2 ''foo'' ''v'']"
    and "node_data (heap (snd (put run_seed1 cluster3 ''foo'' ''v'' kv_world)) 1) ''foo'' = Some ''v''"
    and "node_data (heap (snd (put run_seed1 cluster3 ''foo'' ''v'' kv_world)) 0) ''foo'' = Some ''v''"
    and "node_data (heap (snd (put run_seed1 cluster3 ''foo'' ''v'' kv_world)) 2) ''foo'' = Some ''v''"
    unfolding p1 r1 by (simp_all add: calls_kv_world)
  with res show ?thesis
    using set_semantics_run_seed1 init_cluster3 is_KVNode_kv_world by simp
qed

end
